theory Spec2Isabelle
  imports Main
begin

section \<open>Python built-ins used by the code\<close>

text \<open>
  \<open>str\<close> on an integer: the decimal digits, most significant first, with a minus
  sign for a negative number and no leading zero.
\<close>

definition digit_char :: "nat \<Rightarrow> char" where
  "digit_char d = ''0123456789'' ! d"

function str_nat :: "nat \<Rightarrow> string" where
  "str_nat n = (if n < 10 then [digit_char n] else str_nat (n div 10) @ [digit_char (n mod 10)])"
  by pat_completeness auto
termination
  by (relation "measure id") auto

declare str_nat.simps [simp del]

definition str :: "int \<Rightarrow> string" where
  "str i = (if i < 0 then CHR ''-'' # str_nat (nat (- i)) else str_nat (nat i))"

section \<open>The time-of-day formatter (templatetags/torchbox_tags.py)\<close>

text \<open>
  A \<open>datetime.time\<close> value as far as \<open>time_display\<close> reads it. The constructor of
  \<open>datetime.time\<close> only accepts an hour in 0..23 and a minute in 0..59.
\<close>

record time =
  hour :: int
  minute :: int

text \<open>
  \<^verbatim>\<open>
  def time_display(time):
      hour = time.hour
      minute = time.minute
      if hour >= 12:
          pm = True
          hour -= 12
      else:
          pm = False
      if hour == 0:
          hour = 12
      hour_string = str(hour)
      if minute != 0:
          minute_string = "." + str(minute)
      else:
          minute_string = ""
      if pm:
          pm_string = "pm"
      else:
          pm_string = "am"
      return "".join([hour_string, minute_string, pm_string])
  \<close>
\<close>

definition time_display :: "time \<Rightarrow> string" where
  "time_display t =
     (let h0 = hour t;
          m = minute t;
          pm = (h0 \<ge> 12);
          h1 = (if h0 \<ge> 12 then h0 - 12 else h0);
          h2 = (if h1 = 0 then 12 else h1);
          hour_string = str h2;
          minute_string = (if m \<noteq> 0 then ''.'' @ str m else '''');
          pm_string = (if pm then ''pm'' else ''am'')
      in concat [hour_string, minute_string, pm_string])"

text \<open>
  The formatter as the specification words it: the hour on the 12-hour clock (0 and 12
  both shown as 12), then a full stop and the minutes when the minutes are not zero,
  then the suffix.
\<close>

definition hour12 :: "int \<Rightarrow> int" where
  "hour12 h = (if h mod 12 = 0 then 12 else h mod 12)"

definition time_display_spec :: "int \<Rightarrow> int \<Rightarrow> string" where
  "time_display_spec h m =
     str (hour12 h) @ (if m = 0 then '''' else CHR ''.'' # str m) @ (if h < 12 then ''am'' else ''pm'')"

section \<open>More Python built-ins: values, \<open>int\<close> and \<open>startswith\<close>\<close>

text \<open>
  The values that reach \<open>Paginator.page\<close> in this code: \<open>None\<close> or a string from the
  query string, or an integer computed by the code itself.
\<close>

datatype py_value = PyNone | PyStr string | PyInt int

definition is_space :: "char \<Rightarrow> bool" where
  "is_space c = (c \<in> set [CHR '' '', CHR 0x09, CHR 0x0A, CHR 0x0B, CHR 0x0C, CHR 0x0D])"

definition is_digit :: "char \<Rightarrow> bool" where
  "is_digit c = (c \<in> set ''0123456789'')"

definition digit_val :: "char \<Rightarrow> nat" where
  "digit_val c = of_char c - 48"

definition strip :: "string \<Rightarrow> string" where
  "strip s = rev (dropWhile is_space (rev (dropWhile is_space s)))"

definition parse_digits :: "string \<Rightarrow> nat option" where
  "parse_digits cs =
     (if cs = [] \<or> \<not> list_all is_digit cs then None
      else Some (foldl (\<lambda>a c. 10 * a + digit_val c) 0 cs))"

text \<open>
  \<open>int(s)\<close> on a string, base 10: surrounding white space is dropped, one sign is
  allowed, and the rest must be decimal digits; anything else is a \<open>ValueError\<close>, here
  \<open>None\<close>. Only ASCII literals are covered: digit separators and digits of other
  scripts, which some Python versions accept, count as invalid here.
\<close>

definition int_of_str :: "string \<Rightarrow> int option" where
  "int_of_str s =
     (case strip s of
        [] \<Rightarrow> None
      | c # cs \<Rightarrow>
          if c = CHR ''-'' then map_option (\<lambda>n. - int n) (parse_digits cs)
          else if c = CHR ''+'' then map_option int (parse_digits cs)
          else map_option int (parse_digits (c # cs)))"

text \<open>
  \<open>int(number)\<close> as \<open>validate_number\<close> calls it: \<open>None\<close> stands for the
  \<open>TypeError\<close> (on \<open>None\<close>) or \<open>ValueError\<close> (on a string that is no integer).
\<close>

fun py_int :: "py_value \<Rightarrow> int option" where
  "py_int PyNone = None"
| "py_int (PyStr s) = int_of_str s"
| "py_int (PyInt i) = Some i"

text \<open>\<open>s.startswith(prefix)\<close>, which is what the lookup \<open>path__startswith\<close> tests.\<close>

fun startswith :: "string \<Rightarrow> string \<Rightarrow> bool" where
  "startswith s [] = True"
| "startswith [] (c # cs) = False"
| "startswith (x # xs) (c # cs) = (x = c \<and> startswith xs cs)"

section \<open>The request\<close>

text \<open>
  \<open>request.GET\<close> is a \<open>QueryDict\<close>: the pairs of the query string in order, and
  \<open>get\<close> returns the last value given for a key, or \<open>None\<close>.
\<close>

record request =
  GET :: "(string \<times> string) list"

definition QueryDict_get :: "(string \<times> string) list \<Rightarrow> string \<Rightarrow> string option" where
  "QueryDict_get q k = map_of (rev q) k"

definition py_of_param :: "string option \<Rightarrow> py_value" where
  "py_of_param v = (case v of None \<Rightarrow> PyNone | Some s \<Rightarrow> PyStr s)"

section \<open>The paginator of the framework (django.core.paginator)\<close>

text \<open>
  The four \<open>serve\<close> methods call \<open>Paginator(object_list, 10)\<close>, \<open>paginator.page\<close> and
  \<open>paginator.num_pages\<close> and catch the two exceptions below. The paginator is the
  framework's:
  \<^verbatim>\<open>
  def validate_number(self, number):
      try:
          number = int(number)
      except (TypeError, ValueError):
          raise PageNotAnInteger('That page number is not an integer')
      if number < 1:
          raise EmptyPage('That page number is less than 1')
      if number > self.num_pages:
          if number == 1 and self.allow_empty_first_page:
              pass
          else:
              raise EmptyPage('That page contains no results')
      return number

  def page(self, number):
      number = self.validate_number(number)
      bottom = (number - 1) * self.per_page
      top = bottom + self.per_page
      if top + self.orphans >= self.count:
          top = self.count
      return self._get_page(self.object_list[bottom:top], number, self)

  def _get_num_pages(self):
      if self.count == 0 and not self.allow_empty_first_page:
          self._num_pages = 0
      else:
          hits = max(1, self.count - self.orphans)
          self._num_pages = int(ceil(hits / float(self.per_page)))
      return self._num_pages
  \<close>
\<close>

datatype paginator_error = PageNotAnInteger | EmptyPage

record 'a Paginator =
  object_list :: "'a list"
  per_page :: int
  orphans :: int
  allow_empty_first_page :: bool

text \<open>\<open>Paginator(object_list, per_page)\<close> with the defaults of the other arguments.\<close>

definition new_Paginator :: "'a list \<Rightarrow> int \<Rightarrow> 'a Paginator" where
  "new_Paginator xs n =
     \<lparr>object_list = xs, per_page = n, orphans = 0, allow_empty_first_page = True\<rparr>"

definition count :: "'a Paginator \<Rightarrow> int" where
  "count pg = int (length (object_list pg))"

text \<open>
  The ceiling of \<open>hits / per_page\<close> is taken on integers here; the source takes it on
  floats, which agrees as long as the count is exactly representable.
\<close>

definition num_pages :: "'a Paginator \<Rightarrow> int" where
  "num_pages pg =
     (if count pg = 0 \<and> \<not> allow_empty_first_page pg then 0
      else let hits = max 1 (count pg - orphans pg)
           in (hits + per_page pg - 1) div per_page pg)"

definition validate_number :: "'a Paginator \<Rightarrow> py_value \<Rightarrow> paginator_error + int" where
  "validate_number pg number =
     (case py_int number of
        None \<Rightarrow> Inl PageNotAnInteger
      | Some n \<Rightarrow>
          if n < 1 then Inl EmptyPage
          else if n > num_pages pg then
            (if n = 1 \<and> allow_empty_first_page pg then Inr n else Inl EmptyPage)
          else Inr n)"

text \<open>The page object: the items of one page, its 1-based number, and its paginator.\<close>

record 'a ResultPage =
  page_object_list :: "'a list"
  number :: int
  paginator :: "'a Paginator"

text \<open>\<open>xs[bottom:top]\<close> for bounds that are not negative, as they are in \<open>page\<close>.\<close>

definition slice :: "'a list \<Rightarrow> int \<Rightarrow> int \<Rightarrow> 'a list" where
  "slice xs lo hi = take (nat (hi - lo)) (drop (nat lo) xs)"

definition Paginator_page :: "'a Paginator \<Rightarrow> py_value \<Rightarrow> paginator_error + 'a ResultPage" where
  "Paginator_page pg num =
     (case validate_number pg num of
        Inl e \<Rightarrow> Inl e
      | Inr n \<Rightarrow>
          let bottom = (n - 1) * per_page pg;
              top0 = bottom + per_page pg;
              top1 = (if top0 + orphans pg \<ge> count pg then count pg else top0)
          in Inr \<lparr>page_object_list = slice (object_list pg) bottom top1,
                  number = n, paginator = pg\<rparr>)"

text \<open>
  The block that each of the four \<open>serve\<close> methods repeats:
  \<^verbatim>\<open>
  try:
      blogs = paginator.page(page)
  except PageNotAnInteger:
      blogs = paginator.page(1)
  except EmptyPage:
      blogs = paginator.page(paginator.num_pages)
  \<close>
  An exception raised inside a handler is not caught again, so the result is still a sum.
\<close>

definition page_or_fallback :: "'a Paginator \<Rightarrow> py_value \<Rightarrow> paginator_error + 'a ResultPage" where
  "page_or_fallback pg page =
     (case Paginator_page pg page of
        Inr r \<Rightarrow> Inr r
      | Inl PageNotAnInteger \<Rightarrow> Paginator_page pg (PyInt 1)
      | Inl EmptyPage \<Rightarrow> Paginator_page pg (PyInt (num_pages pg)))"

section \<open>The page tree of the framework\<close>

text \<open>
  A row of the page table with the columns this code reads. \<open>specific_class\<close> is the
  class of \<open>page.specific\<close>; \<open>date\<close> (the post date, as a day number) and
  \<open>tags\<close> (the names of the tags) belong to the \<open>BlogPage\<close> rows. \<open>url\<close> is
  \<open>None\<close> for a page that no site routes to.
\<close>

datatype page_class =
    HomePage | StandardPage | BlogIndexPage | BlogPage | JobPage | JobIndexPage
  | WorkPage | WorkIndexPage | PersonPage | PersonIndexPage | OtherPage

record page =
  pk :: nat
  path :: string
  live :: bool
  show_in_menus :: bool
  specific_class :: page_class
  url :: "string option"
  date :: int
  tags :: "string list"

text \<open>
  The tree is stored as materialised paths: the path of a node is the path of its
  parent followed by \<open>steplen\<close> characters, and \<open>depth\<close> is the number of steps. The
  store is the list of all rows in the order in which the default manager yields them.
\<close>

definition steplen :: nat where
  "steplen = 4"

definition depth :: "page \<Rightarrow> nat" where
  "depth p = length (path p) div steplen"

text \<open>\<open>Model.objects\<close> of one page class: the rows of that class.\<close>

definition objects :: "page_class \<Rightarrow> page list \<Rightarrow> page list" where
  "objects cls store = filter (\<lambda>p. specific_class p = cls) store"

text \<open>\<open>QuerySet.first()\<close>: the first row, or \<open>None\<close> when there is none.\<close>

definition first :: "'a list \<Rightarrow> 'a option" where
  "first xs = (case xs of [] \<Rightarrow> None | x # _ \<Rightarrow> Some x)"

text \<open>
  \<open>get_ancestors\<close>: the rows whose path is one of
  \<open>[path[0:pos] for pos in range(0, len(path), steplen)[1:]]\<close>, ordered from the root
  down. \<open>get_children\<close>: the rows one step below the node whose path extends its path.
\<close>

definition ancestor_paths :: "string \<Rightarrow> string list" where
  "ancestor_paths s =
     map (\<lambda>k. take (k * steplen) s) [1 ..< (length s + steplen - 1) div steplen]"

definition get_ancestors :: "page \<Rightarrow> page list \<Rightarrow> page list" where
  "get_ancestors self store =
     sort_key depth (filter (\<lambda>p. path p \<in> set (ancestor_paths (path self))) store)"

definition get_children :: "page \<Rightarrow> page list \<Rightarrow> page list" where
  "get_children self store =
     filter (\<lambda>p. depth p = depth self + 1 \<and> startswith (path p) (path self)) store"

section \<open>Link fields (models.py)\<close>

record document =
  document_url :: string

record LinkFields =
  link_external :: string
  link_page :: "page option"
  link_document :: "document option"

text \<open>
  \<^verbatim>\<open>
  @property
  def link(self):
      if self.link_page:
          return self.link_page.url
      elif self.link_document:
          return self.link_document.url
      else:
          return self.link_external
  \<close>
  A model instance is always true, so the tests are tests for \<open>None\<close>.
\<close>

definition link :: "LinkFields \<Rightarrow> string option" where
  "link self =
     (case link_page self of
        Some p \<Rightarrow> url p
      | None \<Rightarrow>
          (case link_document self of
             Some d \<Rightarrow> Some (document_url d)
           | None \<Rightarrow> Some (link_external self)))"

section \<open>Index pages (models.py)\<close>

text \<open>
  What \<open>serve\<close> hands to \<open>render\<close>: the dictionary with the index page under
  \<open>'self'\<close> and the page of results under the key \<open>listing_key\<close>.
\<close>

record index_context =
  context_self :: page
  listing_key :: string
  listing :: "page ResultPage"

text \<open>
  \<^verbatim>\<open>
  @property
  def blogs(self):
      blogs = BlogPage.objects.filter(live=True, path__startswith=self.path)
      blogs = blogs.order_by('-date')
      return blogs
  \<close>
  The database leaves the order of rows with equal dates open; the model keeps them in
  store order.
\<close>

definition BlogIndexPage_blogs :: "page \<Rightarrow> page list \<Rightarrow> page list" where
  "BlogIndexPage_blogs self store =
     sort_key (\<lambda>p. - date p)
       (filter (\<lambda>p. live p \<and> startswith (path p) (path self)) (objects BlogPage store))"

text \<open>
  \<^verbatim>\<open>
  def serve(self, request):
      blogs = self.blogs
      tag = request.GET.get('tag')
      if tag:
          blogs = blogs.filter(tags__name=tag)
      page = request.GET.get('page')
      paginator = Paginator(blogs, 10)
      try: ... except PageNotAnInteger: ... except EmptyPage: ...
      return render(request, self.template, {'self': self, 'blogs': blogs})
  \<close>
\<close>

definition BlogIndexPage_serve ::
    "page \<Rightarrow> page list \<Rightarrow> request \<Rightarrow> paginator_error + index_context" where
  "BlogIndexPage_serve self store request =
     (let blogs = BlogIndexPage_blogs self store;
          tag = QueryDict_get (GET request) ''tag'';
          blogs = (case tag of
                     None \<Rightarrow> blogs
                   | Some t \<Rightarrow> if t \<noteq> [] then filter (\<lambda>b. t \<in> set (tags b)) blogs else blogs);
          page = QueryDict_get (GET request) ''page'';
          paginator = new_Paginator blogs 10
      in map_sum id (\<lambda>r. \<lparr>context_self = self, listing_key = ''blogs'', listing = r\<rparr>)
           (page_or_fallback paginator (py_of_param page)))"

definition JobIndexPage_jobs :: "page \<Rightarrow> page list \<Rightarrow> page list" where
  "JobIndexPage_jobs self store =
     filter (\<lambda>p. live p \<and> startswith (path p) (path self)) (objects JobPage store)"

definition JobIndexPage_serve ::
    "page \<Rightarrow> page list \<Rightarrow> request \<Rightarrow> paginator_error + index_context" where
  "JobIndexPage_serve self store request =
     (let jobs = JobIndexPage_jobs self store;
          page = QueryDict_get (GET request) ''page'';
          paginator = new_Paginator jobs 10
      in map_sum id (\<lambda>r. \<lparr>context_self = self, listing_key = ''jobs'', listing = r\<rparr>)
           (page_or_fallback paginator (py_of_param page)))"

definition WorkIndexPage_work :: "page \<Rightarrow> page list \<Rightarrow> page list" where
  "WorkIndexPage_work self store =
     filter (\<lambda>p. live p \<and> startswith (path p) (path self)) (objects WorkPage store)"

definition WorkIndexPage_serve ::
    "page \<Rightarrow> page list \<Rightarrow> request \<Rightarrow> paginator_error + index_context" where
  "WorkIndexPage_serve self store request =
     (let work = WorkIndexPage_work self store;
          page = QueryDict_get (GET request) ''page'';
          paginator = new_Paginator work 10
      in map_sum id (\<lambda>r. \<lparr>context_self = self, listing_key = ''work'', listing = r\<rparr>)
           (page_or_fallback paginator (py_of_param page)))"

definition PersonIndexPage_people :: "page \<Rightarrow> page list \<Rightarrow> page list" where
  "PersonIndexPage_people self store =
     filter (\<lambda>p. live p \<and> startswith (path p) (path self)) (objects PersonPage store)"

definition PersonIndexPage_serve ::
    "page \<Rightarrow> page list \<Rightarrow> request \<Rightarrow> paginator_error + index_context" where
  "PersonIndexPage_serve self store request =
     (let people = PersonIndexPage_people self store;
          page = QueryDict_get (GET request) ''page'';
          paginator = new_Paginator people 10
      in map_sum id (\<lambda>r. \<lparr>context_self = self, listing_key = ''people'', listing = r\<rparr>)
           (page_or_fallback paginator (py_of_param page)))"

section \<open>The blog index of a blog entry (models.py)\<close>

text \<open>
  \<^verbatim>\<open>
  @property
  def blog_index(self):
      for ancestor in reversed(self.get_ancestors()):
          if isinstance(ancestor.specific, BlogIndexPage):
              return ancestor
      return BlogIndexPage.objects.first()
  \<close>
  The loop with its early return is \<open>blog_index_loop\<close>; \<open>None\<close> means that it ran
  to the end.
\<close>

fun blog_index_loop :: "page list \<Rightarrow> page option" where
  "blog_index_loop [] = None"
| "blog_index_loop (ancestor # rest) =
     (if specific_class ancestor = BlogIndexPage then Some ancestor else blog_index_loop rest)"

definition blog_index :: "page \<Rightarrow> page list \<Rightarrow> page option" where
  "blog_index self store =
     (case blog_index_loop (rev (get_ancestors self store)) of
        Some ancestor \<Rightarrow> Some ancestor
      | None \<Rightarrow> first (objects BlogIndexPage store))"

section \<open>The top menu (templatetags/torchbox_tags.py)\<close>

text \<open>
  \<^verbatim>\<open>
  def has_menu_children(page):
      if page.get_children().filter(live=True, show_in_menus=True):
          return True
      else:
          return False

  def top_menu(context, parent, calling_page=None):
      menuitems = parent.get_children().filter(live=True, show_in_menus=True)
      for menuitem in menuitems:
          menuitem.show_dropdown = has_menu_children(menuitem)
      return {'calling_page': calling_page, 'menuitems': menuitems,
              'request': context['request']}
  \<close>
  A menu item is the page together with the attribute that the loop sets on it.
\<close>

definition has_menu_children :: "page \<Rightarrow> page list \<Rightarrow> bool" where
  "has_menu_children p store =
     (if filter (\<lambda>c. live c \<and> show_in_menus c) (get_children p store) \<noteq> [] then True
      else False)"

record menuitem =
  menu_page :: page
  show_dropdown :: bool

record top_menu_context =
  calling_page :: "page option"
  menuitems :: "menuitem list"
  context_request :: request

definition top_menu :: "request \<Rightarrow> page \<Rightarrow> page option \<Rightarrow> page list \<Rightarrow> top_menu_context" where
  "top_menu req parent calling store =
     (let items = filter (\<lambda>c. live c \<and> show_in_menus c) (get_children parent store);
          items' = map (\<lambda>m. \<lparr>menu_page = m, show_dropdown = has_menu_children m store\<rparr>) items
      in \<lparr>calling_page = calling, menuitems = items', context_request = req\<rparr>)"

section \<open>The four listings together, and what a response shows\<close>

definition index_serves ::
    "(page \<Rightarrow> page list \<Rightarrow> request \<Rightarrow> paginator_error + index_context) list" where
  "index_serves =
     [BlogIndexPage_serve, JobIndexPage_serve, WorkIndexPage_serve, PersonIndexPage_serve]"

text \<open>The number of the page that a response shows; \<open>None\<close> if \<open>serve\<close> raised.\<close>

definition served_number :: "paginator_error + index_context \<Rightarrow> int option" where
  "served_number r = (case r of Inl e \<Rightarrow> None | Inr c \<Rightarrow> Some (number (listing c)))"


text \<open>The items of page 1, page 2, up to the last page, one after the other.\<close>

definition all_pages :: "'a Paginator \<Rightarrow> 'a list" where
  "all_pages pg =
     concat (map (\<lambda>k. case Paginator_page pg (PyInt (int k)) of
                         Inl e \<Rightarrow> []
                       | Inr r \<Rightarrow> page_object_list r)
                 [1 ..< Suc (nat (num_pages pg))])"

section \<open>A small site\<close>

text \<open>
  A home page with a blog index, a job index and a standard page below it; twelve blog
  entries below the blog index, the last of them unpublished, and one blog entry filed
  below the job index; and a second tree that holds a single blog entry and no blog
  index.
\<close>

definition pad4 :: "nat \<Rightarrow> string" where
  "pad4 k = replicate (4 - length (str_nat k)) CHR ''0'' @ str_nat k"

definition site_home :: page where
  "site_home = \<lparr>pk = 1, path = ''0001'', live = True, show_in_menus = True,
     specific_class = HomePage, url = Some ''/'', date = 0, tags = []\<rparr>"

definition site_blog_index :: page where
  "site_blog_index = \<lparr>pk = 2, path = ''00010001'', live = True, show_in_menus = True,
     specific_class = BlogIndexPage, url = Some ''/blog/'', date = 0, tags = []\<rparr>"

definition site_job_index :: page where
  "site_job_index = \<lparr>pk = 3, path = ''00010002'', live = True, show_in_menus = True,
     specific_class = JobIndexPage, url = Some ''/jobs/'', date = 0, tags = []\<rparr>"

definition site_about :: page where
  "site_about = \<lparr>pk = 4, path = ''00010003'', live = True, show_in_menus = False,
     specific_class = StandardPage, url = Some ''/about/'', date = 0, tags = []\<rparr>"

definition site_post :: "nat \<Rightarrow> page" where
  "site_post k = \<lparr>pk = 10 + k, path = ''00010001'' @ pad4 k, live = (k \<noteq> 12),
     show_in_menus = (k = 1), specific_class = BlogPage, url = None,
     date = 735000 + int k,
     tags = (if even k then [''django''] else [''django'', ''wagtail''])\<rparr>"

definition site_misfiled_post :: page where
  "site_misfiled_post = \<lparr>pk = 5, path = ''000100020001'', live = True, show_in_menus = False,
     specific_class = BlogPage, url = Some ''/jobs/post/'', date = 735100,
     tags = [''wagtail'']\<rparr>"

definition site_store :: "page list" where
  "site_store =
     [site_home, site_blog_index] @ map site_post [1 ..< 13]
       @ [site_job_index, site_misfiled_post, site_about]"

definition stray_home :: page where
  "stray_home = \<lparr>pk = 1, path = ''0001'', live = True, show_in_menus = True,
     specific_class = HomePage, url = Some ''/'', date = 0, tags = []\<rparr>"

definition stray_post :: page where
  "stray_post = \<lparr>pk = 2, path = ''00010001'', live = True, show_in_menus = False,
     specific_class = BlogPage, url = Some ''/post/'', date = 735000, tags = []\<rparr>"

definition stray_store :: "page list" where
  "stray_store = [stray_home, stray_post]"

definition request_page_0 :: request where
  "request_page_0 = \<lparr>GET = [(''page'', ''0'')]\<rparr>"

definition request_page_minus_1 :: request where
  "request_page_minus_1 = \<lparr>GET = [(''page'', ''-1'')]\<rparr>"

definition request_page_abc :: request where
  "request_page_abc = \<lparr>GET = [(''page'', ''abc'')]\<rparr>"


definition request_tag_wagtail :: request where
  "request_tag_wagtail = \<lparr>GET = [(''tag'', ''wagtail'')]\<rparr>"

definition request_tag_empty :: request where
  "request_tag_empty = \<lparr>GET = [(''tag'', []), (''page'', ''2'')]\<rparr>"

definition request_no_tag :: request where
  "request_no_tag = \<lparr>GET = [(''page'', ''2'')]\<rparr>"

section \<open>Properties of the time-of-day formatter\<close>

lemma digit_char_nonzero: "0 < d \<Longrightarrow> d < 10 \<Longrightarrow> digit_char d \<noteq> CHR ''0''"
proof -
  assume "0 < d" "d < 10"
  then have "d \<in> {1,2,3,4,5,6,7,8,9}" by auto
  then show ?thesis by (auto simp: digit_char_def)
qed

lemma digit_char_is_digit: "d < 10 \<Longrightarrow> digit_char d \<in> set ''0123456789''"
proof -
  assume "d < 10"
  then have "d \<in> {0,1,2,3,4,5,6,7,8,9}" by auto
  then show ?thesis by (auto simp: digit_char_def)
qed

lemma str_nat_nonempty: "str_nat n \<noteq> []"
  by (subst str_nat.simps) simp

lemma hd_str_nat: "0 < n \<Longrightarrow> hd (str_nat n) \<noteq> CHR ''0''"
proof (induction n rule: str_nat.induct)
  case (1 n)
  show ?case
  proof (cases "n < 10")
    case True
    with 1 show ?thesis by (subst str_nat.simps) (simp add: digit_char_nonzero)
  next
    case False
    then have "0 < n div 10" by simp
    with 1 False have "hd (str_nat (n div 10)) \<noteq> CHR ''0''" by simp
    with False show ?thesis by (subst str_nat.simps) (simp add: str_nat_nonempty)
  qed
qed

lemma set_str_nat: "set (str_nat n) \<subseteq> set ''0123456789''"
proof (induction n rule: str_nat.induct)
  case (1 n)
  show ?case
  proof (cases "n < 10")
    case True
    then show ?thesis using digit_char_is_digit[of n] by (subst str_nat.simps) simp
  next
    case False
    have "n mod 10 < 10" by simp
    then have "digit_char (n mod 10) \<in> set ''0123456789''" by (rule digit_char_is_digit)
    with 1 False show ?thesis by (subst str_nat.simps) simp
  qed
qed

lemma no_dot_str_nat: "CHR ''.'' \<notin> set (str_nat n)"
  using set_str_nat[of n] by auto

lemma time_display_refines:
  "0 \<le> h \<Longrightarrow> h < 24 \<Longrightarrow> time_display \<lparr>hour = h, minute = m\<rparr> = time_display_spec h m"
proof -
  assume h: "0 \<le> h" "h < 24"
  have m1: "h < 12 \<Longrightarrow> h mod 12 = h" using h by presburger
  have m2: "12 \<le> h \<Longrightarrow> h mod 12 = h - 12" using h by presburger
  show ?thesis
  proof (cases "h < 12")
    case True
    with m1 show ?thesis
      by (simp add: time_display_def time_display_spec_def hour12_def Let_def)
  next
    case False
    with m2 show ?thesis
      by (simp add: time_display_def time_display_spec_def hour12_def Let_def)
  qed
qed

lemma hour12_range: "0 \<le> h \<Longrightarrow> 1 \<le> hour12 h \<and> hour12 h \<le> 12"
  unfolding hour12_def by presburger

lemma hd_time_display_spec: "0 \<le> h \<Longrightarrow> hd (time_display_spec h m) \<noteq> CHR ''0''"
  using hour12_range[of h] by (simp add: time_display_spec_def str_def str_nat_nonempty hd_str_nat)

lemma dot_time_display_spec:
  "0 \<le> h \<Longrightarrow> 0 \<le> m \<Longrightarrow> (CHR ''.'' \<in> set (time_display_spec h m)) = (m \<noteq> 0)"
  using hour12_range[of h] by (simp add: time_display_spec_def str_def no_dot_str_nat)

text \<open>
  Claim C7. For an hour in 0..23 and a minute in 0..59, \<open>time_display\<close> returns the
  string the specification describes: the hour on the 12-hour clock without a leading
  zero (0 and 12 both give 12), a full stop followed by the minutes exactly when the
  minutes are not zero, and the suffix am or pm. The five examples of the specification
  evaluate as stated.
\<close>

theorem time_display_format:
  "0 \<le> h \<Longrightarrow> h < 24 \<Longrightarrow> 0 \<le> m \<Longrightarrow> m < 60 \<Longrightarrow>
   time_display \<lparr>hour = h, minute = m\<rparr> = time_display_spec h m
   \<and> hd (time_display \<lparr>hour = h, minute = m\<rparr>) \<noteq> CHR ''0''
   \<and> (CHR ''.'' \<in> set (time_display \<lparr>hour = h, minute = m\<rparr>)) = (m \<noteq> 0)
   \<and> hour12 0 = 12 \<and> hour12 12 = 12
   \<and> time_display \<lparr>hour = 9, minute = 0\<rparr> = ''9am''
   \<and> time_display \<lparr>hour = 13, minute = 5\<rparr> = ''1.5pm''
   \<and> time_display \<lparr>hour = 0, minute = 0\<rparr> = ''12am''
   \<and> time_display \<lparr>hour = 12, minute = 0\<rparr> = ''12pm''
   \<and> time_display \<lparr>hour = 23, minute = 45\<rparr> = ''11.45pm''"
proof -
  assume h: "0 \<le> h" "h < 24" and m: "0 \<le> m" "m < 60"
  have eq: "time_display \<lparr>hour = h, minute = m\<rparr> = time_display_spec h m"
    using h by (rule time_display_refines)
  have e1: "time_display \<lparr>hour = 9, minute = 0\<rparr> = ''9am''"
    by (simp add: time_display_def str_def digit_char_def str_nat.simps)
  have e2: "time_display \<lparr>hour = 13, minute = 5\<rparr> = ''1.5pm''"
    by (simp add: time_display_def str_def digit_char_def str_nat.simps)
  have e3: "time_display \<lparr>hour = 0, minute = 0\<rparr> = ''12am''"
    by (simp add: time_display_def str_def digit_char_def str_nat.simps)
  have e4: "time_display \<lparr>hour = 12, minute = 0\<rparr> = ''12pm''"
    by (simp add: time_display_def str_def digit_char_def str_nat.simps)
  have e5: "time_display \<lparr>hour = 23, minute = 45\<rparr> = ''11.45pm''"
    by (simp add: time_display_def str_def digit_char_def str_nat.simps)
  have h12: "hour12 0 = 12 \<and> hour12 12 = 12" by (simp add: hour12_def)
  show ?thesis
    using eq hd_time_display_spec[OF h(1), of m] dot_time_display_spec[OF h(1) m(1)] e1 e2 e3 e4 e5 h12
    by simp
qed

text \<open>The theorem at a quarter to midnight.\<close>

theorem time_display_format_witness:
  "(0::int) \<le> 23 \<and> (23::int) < 24 \<and> (0::int) \<le> 45 \<and> (45::int) < 60
   \<and> time_display \<lparr>hour = 23, minute = 45\<rparr> = time_display_spec 23 45
   \<and> time_display_spec 23 45 = ''11.45pm''
   \<and> hd (time_display \<lparr>hour = 23, minute = 45\<rparr>) \<noteq> CHR ''0''
   \<and> CHR ''.'' \<in> set (time_display \<lparr>hour = 23, minute = 45\<rparr>)"
proof -
  have a: "(0::int) \<le> 23" "(23::int) < 24" "(0::int) \<le> 45" "(45::int) < 60" by simp_all
  have s: "time_display_spec 23 45 = ''11.45pm''"
    by (simp add: time_display_spec_def hour12_def str_def digit_char_def str_nat.simps)
  show ?thesis using time_display_format[OF a] s by simp
qed

section \<open>Properties of link resolution\<close>

text \<open>
  Claim C6. The link of a \<open>LinkFields\<close> instance is the URL of the linked page when a
  page is set, whatever the other two fields hold; otherwise the URL of the linked
  document when a document is set; otherwise the external URL string.
\<close>

theorem link_priority:
  "link \<lparr>link_external = e, link_page = Some p, link_document = d\<rparr> = url p
   \<and> link \<lparr>link_external = e, link_page = None, link_document = Some doc\<rparr>
       = Some (document_url doc)
   \<and> link \<lparr>link_external = e, link_page = None, link_document = None\<rparr> = Some e"
  by (simp add: link_def)

section \<open>Properties of pagination\<close>

lemma num_pages_new: "num_pages (new_Paginator xs 10) = (max 1 (int (length xs)) + 9) div 10"
  by (simp add: num_pages_def new_Paginator_def count_def Let_def)

lemma num_pages_ge1: "1 \<le> num_pages (new_Paginator xs 10)"
  unfolding num_pages_new by (cases "xs = []") auto

lemma validate_int:
  "1 \<le> n \<Longrightarrow> n \<le> num_pages pg \<Longrightarrow> validate_number pg (PyInt n) = Inr n"
  by (simp add: validate_number_def)

lemma page_int:
  assumes "1 \<le> n" "n \<le> num_pages (new_Paginator xs 10)"
  shows "Paginator_page (new_Paginator xs 10) (PyInt n) =
         Inr \<lparr>page_object_list = take 10 (drop (10 * nat (n - 1)) xs), number = n,
              paginator = new_Paginator xs 10\<rparr>"
proof -
  let ?pg = "new_Paginator xs 10"
  have v: "validate_number ?pg (PyInt n) = Inr n" using assms by (rule validate_int)
  have b: "nat ((n - 1) * 10) = 10 * nat (n - 1)" using assms(1) by (simp add: nat_mult_distrib)
  have le: "(n - 1) * 10 \<le> int (length xs)"
    using assms unfolding num_pages_new by (cases "xs = []") auto
  have n10: "nat (n * 10 - 10) = 10 * nat (n - 1)" using b by (simp add: algebra_simps)
  show ?thesis
  proof (cases "int (length xs) \<le> n * 10")
    case True
    then have "length xs - 10 * nat (n - 1) \<le> 10" using assms(1) by auto
    moreover have "nat (int (length xs) - (n * 10 - 10)) = length xs - 10 * nat (n - 1)"
      using le assms(1) by auto
    ultimately show ?thesis
      unfolding Paginator_page_def v
      using True n10 by (simp add: new_Paginator_def count_def Let_def slice_def)
  next
    case False
    then show ?thesis
      unfolding Paginator_page_def v
      using n10 by (simp add: new_Paginator_def count_def Let_def slice_def)
  qed
qed

lemma page_or_fallback_new:
  "page_or_fallback (new_Paginator xs 10) v =
     (let pg = new_Paginator xs 10;
          k = (case py_int v of None \<Rightarrow> 1
               | Some n \<Rightarrow> if n < 1 \<or> n > num_pages pg then num_pages pg else n)
      in Inr \<lparr>page_object_list = take 10 (drop (10 * nat (k - 1)) xs), number = k, paginator = pg\<rparr>)"
proof -
  let ?pg = "new_Paginator xs 10"
  note g = num_pages_ge1[of xs]
  have p1: "Paginator_page ?pg (PyInt 1) =
     Inr \<lparr>page_object_list = take 10 (drop (10 * nat (1 - 1)) xs), number = 1, paginator = ?pg\<rparr>"
    using g by (intro page_int) simp_all
  have pl: "Paginator_page ?pg (PyInt (num_pages ?pg)) =
     Inr \<lparr>page_object_list = take 10 (drop (10 * nat (num_pages ?pg - 1)) xs),
          number = num_pages ?pg, paginator = ?pg\<rparr>"
    using g by (intro page_int) simp_all
  show ?thesis
  proof (cases "py_int v")
    case None
    then have "Paginator_page ?pg v = Inl PageNotAnInteger"
      by (simp add: Paginator_page_def validate_number_def)
    with None p1 show ?thesis by (simp add: page_or_fallback_def Let_def)
  next
    case (Some n)
    show ?thesis
    proof (cases "n < 1 \<or> n > num_pages ?pg")
      case True
      then have "Paginator_page ?pg v = Inl EmptyPage"
        using Some g by (auto simp add: Paginator_page_def validate_number_def)
      with Some True pl show ?thesis by (simp add: page_or_fallback_def Let_def)
    next
      case False
      then have n: "1 \<le> n" "n \<le> num_pages ?pg" by auto
      have "validate_number ?pg v = validate_number ?pg (PyInt n)"
        using Some by (simp add: validate_number_def)
      then have "Paginator_page ?pg v = Paginator_page ?pg (PyInt n)"
        by (simp add: Paginator_page_def)
      with page_int[OF n] Some False show ?thesis by (simp add: page_or_fallback_def Let_def)
    qed
  qed
qed

lemma serve_shape:
  assumes "serve \<in> set index_serves"
  shows "\<exists>xs key. serve self store request =
     (let pg = new_Paginator xs 10;
          k = (case py_int (py_of_param (QueryDict_get (GET request) ''page'')) of None \<Rightarrow> 1
               | Some n \<Rightarrow> if n < 1 \<or> n > num_pages pg then num_pages pg else n)
      in Inr \<lparr>context_self = self, listing_key = key,
              listing = \<lparr>page_object_list = take 10 (drop (10 * nat (k - 1)) xs), number = k,
                         paginator = pg\<rparr>\<rparr>)"
proof -
  from assms consider "serve = BlogIndexPage_serve" | "serve = JobIndexPage_serve"
    | "serve = WorkIndexPage_serve" | "serve = PersonIndexPage_serve"
    by (auto simp: index_serves_def)
  then show ?thesis
  proof cases
    case 1
    show ?thesis unfolding 1 BlogIndexPage_serve_def Let_def page_or_fallback_new
      by (intro exI) (simp add: Let_def)
  next
    case 2
    show ?thesis unfolding 2 JobIndexPage_serve_def Let_def page_or_fallback_new
      by (intro exI) (simp add: Let_def)
  next
    case 3
    show ?thesis unfolding 3 WorkIndexPage_serve_def Let_def page_or_fallback_new
      by (intro exI) (simp add: Let_def)
  next
    case 4
    show ?thesis unfolding 4 PersonIndexPage_serve_def Let_def page_or_fallback_new
      by (intro exI) (simp add: Let_def)
  qed
qed

lemma int_of_str_abc: "int_of_str ''abc'' = None"
  by (simp add: int_of_str_def strip_def is_space_def parse_digits_def is_digit_def)

lemma int_of_str_0: "int_of_str ''0'' = Some 0"
  by (simp add: int_of_str_def strip_def is_space_def parse_digits_def is_digit_def digit_val_def)

lemma int_of_str_minus_1: "int_of_str ''-1'' = Some (- 1)"
  by (simp add: int_of_str_def strip_def is_space_def parse_digits_def is_digit_def digit_val_def)


lemma last_page_drop:
  "take 10 (drop (10 * nat (num_pages (new_Paginator xs 10) - 1)) xs)
   = drop (10 * nat (num_pages (new_Paginator xs 10) - 1)) xs"
proof -
  have "length xs \<le> 10 * nat (num_pages (new_Paginator xs 10) - 1) + 10"
    unfolding num_pages_new by (cases "xs = []") auto
  then show ?thesis by simp
qed

lemma num_pages_1_iff: "(num_pages (new_Paginator xs 10) = 1) = (length xs \<le> 10)"
  unfolding num_pages_new by (cases "xs = []") auto

text \<open>
  Claim C1, as the code has it. For each of the four index listings, a request whose
  \<open>page\<close> parameter is the string \<open>abc\<close> is answered with page 1, the first ten
  entries of the listing. A request whose \<open>page\<close> parameter is \<open>0\<close> or \<open>-1\<close> is
  answered with the last page of the listing: these are integers, so the paginator
  raises \<open>EmptyPage\<close> and not \<open>PageNotAnInteger\<close>, and the handler of \<open>EmptyPage\<close>
  asks for page \<open>num_pages\<close>. The last page is page 1 exactly when the listing has at
  most ten entries.
\<close>

theorem index_page_fallback:
  "serve \<in> set index_serves \<Longrightarrow>
   \<exists>c. serve self store request = Inr c
     \<and> (QueryDict_get (GET request) ''page'' = Some ''abc'' \<longrightarrow>
          number (listing c) = 1
          \<and> page_object_list (listing c) = take 10 (object_list (paginator (listing c))))
     \<and> (QueryDict_get (GET request) ''page'' = Some ''0''
          \<or> QueryDict_get (GET request) ''page'' = Some ''-1'' \<longrightarrow>
          number (listing c) = num_pages (paginator (listing c))
          \<and> page_object_list (listing c)
              = drop (10 * nat (num_pages (paginator (listing c)) - 1))
                  (object_list (paginator (listing c))))
     \<and> (num_pages (paginator (listing c)) = 1)
          = (length (object_list (paginator (listing c))) \<le> 10)"
proof -
  assume "serve \<in> set index_serves"
  from serve_shape[OF this, of self store request] obtain xs key where
    s: "serve self store request =
     (let pg = new_Paginator xs 10;
          k = (case py_int (py_of_param (QueryDict_get (GET request) ''page'')) of None \<Rightarrow> 1
               | Some n \<Rightarrow> if n < 1 \<or> n > num_pages pg then num_pages pg else n)
      in Inr \<lparr>context_self = self, listing_key = key,
              listing = \<lparr>page_object_list = take 10 (drop (10 * nat (k - 1)) xs), number = k,
                         paginator = pg\<rparr>\<rparr>)"
    by blast
  have ol: "object_list (new_Paginator xs 10) = xs" by (simp add: new_Paginator_def)
  show ?thesis
    unfolding s Let_def
    by (intro exI conjI impI refl)
       (auto simp: py_of_param_def int_of_str_abc int_of_str_0 int_of_str_minus_1 ol
                   last_page_drop num_pages_1_iff)
qed


text \<open>
  The blog index of the small site lists eleven published entries, so it has two pages.
  Asked for page \<open>0\<close> or page \<open>-1\<close>, it answers with page 2, not with page 1.
\<close>

theorem index_page_fallback_counterexample:
  "served_number (BlogIndexPage_serve site_blog_index site_store request_page_0) = Some 2
   \<and> served_number (BlogIndexPage_serve site_blog_index site_store request_page_minus_1) = Some 2"
  by code_simp

text \<open>The theorem on the blog index of the small site, for \<open>abc\<close> and for \<open>0\<close>.\<close>

theorem index_page_fallback_witness:
  "BlogIndexPage_serve \<in> set index_serves
   \<and> QueryDict_get (GET request_page_abc) ''page'' = Some ''abc''
   \<and> QueryDict_get (GET request_page_0) ''page'' = Some ''0''
   \<and> (\<exists>c. BlogIndexPage_serve site_blog_index site_store request_page_abc = Inr c
          \<and> number (listing c) = 1)
   \<and> (\<exists>c. BlogIndexPage_serve site_blog_index site_store request_page_0 = Inr c
          \<and> number (listing c) = num_pages (paginator (listing c)))"
proof -
  have m: "BlogIndexPage_serve \<in> set index_serves" by (simp add: index_serves_def)
  have a: "QueryDict_get (GET request_page_abc) ''page'' = Some ''abc''"
    by (simp add: request_page_abc_def QueryDict_get_def)
  have z: "QueryDict_get (GET request_page_0) ''page'' = Some ''0''"
    by (simp add: request_page_0_def QueryDict_get_def)
  show ?thesis
    using m a z index_page_fallback[OF m, of site_blog_index site_store request_page_abc]
      index_page_fallback[OF m, of site_blog_index site_store request_page_0]
    by auto
qed


section \<open>Properties of the blog listing\<close>

lemma concat_chunks:
  "concat (map (\<lambda>k. take m (drop (m * (k - 1)) xs)) [1 ..< Suc n]) = take (m * n) xs"
proof (induction n)
  case 0
  show ?case by simp
next
  case (Suc n)
  have "take (m * n) xs @ take m (drop (m * n) xs) = take (m * n + m) xs"
    by (simp add: take_add)
  with Suc show ?case by (simp add: add.commute)
qed

lemma all_pages_new: "all_pages (new_Paginator xs 10) = xs"
proof -
  let ?pg = "new_Paginator xs 10"
  let ?N = "nat (num_pages ?pg)"
  have each: "(case Paginator_page ?pg (PyInt (int k)) of Inl e \<Rightarrow> [] | Inr r \<Rightarrow> page_object_list r)
              = take 10 (drop (10 * (k - 1)) xs)" if "k \<in> set [1 ..< Suc ?N]" for k
  proof -
    from that have k: "1 \<le> int k" "int k \<le> num_pages ?pg" by auto
    have "nat (int k - 1) = k - 1" by simp
    with page_int[OF k] show ?thesis by simp
  qed
  have "all_pages ?pg = concat (map (\<lambda>k. take 10 (drop (10 * (k - 1)) xs)) [1 ..< Suc ?N])"
    unfolding all_pages_def using each by (intro arg_cong[where f = concat] map_cong refl)
  also have "\<dots> = take (10 * ?N) xs" by (rule concat_chunks)
  also have "\<dots> = xs"
  proof -
    have "length xs \<le> 10 * ?N" unfolding num_pages_new by (cases "xs = []") auto
    then show ?thesis by simp
  qed
  finally show ?thesis .
qed

lemma blog_serve_shape:
  "BlogIndexPage_serve self store request =
     (let blogs = BlogIndexPage_blogs self store;
          xs = (case QueryDict_get (GET request) ''tag'' of
                  None \<Rightarrow> blogs
                | Some t \<Rightarrow> if t \<noteq> [] then filter (\<lambda>b. t \<in> set (tags b)) blogs else blogs);
          pg = new_Paginator xs 10;
          k = (case py_int (py_of_param (QueryDict_get (GET request) ''page'')) of None \<Rightarrow> 1
               | Some n \<Rightarrow> if n < 1 \<or> n > num_pages pg then num_pages pg else n)
      in Inr \<lparr>context_self = self, listing_key = ''blogs'',
              listing = \<lparr>page_object_list = take 10 (drop (10 * nat (k - 1)) xs), number = k,
                         paginator = pg\<rparr>\<rparr>)"
  unfolding BlogIndexPage_serve_def Let_def page_or_fallback_new by (simp add: Let_def)

lemma set_blogs:
  "set (BlogIndexPage_blogs self store) =
     {p \<in> set store. specific_class p = BlogPage \<and> live p \<and> startswith (path p) (path self)}"
  by (auto simp: BlogIndexPage_blogs_def objects_def)

lemma blogs_descending:
  "sorted_wrt (\<lambda>a b. date a \<ge> date b) (BlogIndexPage_blogs self store)"
proof -
  have "sorted (map (\<lambda>p. - date p) (BlogIndexPage_blogs self store))"
    unfolding BlogIndexPage_blogs_def by (rule sorted_sort_key)
  then show ?thesis by (simp add: sorted_map)
qed

lemma strict_of_distinct:
  "sorted_wrt (\<lambda>a b. f a \<ge> (f b :: int)) xs \<Longrightarrow> distinct (map f xs) \<Longrightarrow>
   sorted_wrt (\<lambda>a b. f a > f b) xs"
proof (induction xs)
  case Nil
  show ?case by simp
next
  case (Cons x xs)
  from Cons.prems(1) have le: "\<forall>y \<in> set xs. f y \<le> f x" by simp
  from Cons.prems(2) have "f x \<notin> f ` set xs" by simp
  then have ne: "\<forall>y \<in> set xs. f y \<noteq> f x" by (auto simp: image_iff)
  from le ne have "\<forall>y \<in> set xs. f y < f x" by (simp add: order_less_le)
  with Cons show ?case by simp
qed

lemma blogs_dates_distinct:
  "distinct (map date (BlogIndexPage_blogs self store)) =
   distinct (map date (filter (\<lambda>p. specific_class p = BlogPage \<and> live p
                                \<and> startswith (path p) (path self)) store))"
proof -
  let ?ys = "filter (\<lambda>p. specific_class p = BlogPage \<and> live p
                                \<and> startswith (path p) (path self)) store"
  have b: "BlogIndexPage_blogs self store = sort_key (\<lambda>p. - date p) ?ys"
    by (simp add: BlogIndexPage_blogs_def objects_def conj_commute conj_left_commute)
  show ?thesis unfolding b by (simp add: distinct_map)
qed

text \<open>
  Claim C4. When the request carries a tag \<open>X\<close> that is not the empty string, the blog
  listing that \<open>serve\<close> paginates holds exactly the rows of the store that are blog
  entries, are published, lie below the index (their path starts with the path of the
  index) and carry the tag \<open>X\<close>. The pages of the paginator, one after the other, are
  this listing, and the page shown is part of it.
\<close>

theorem blog_tag_filter:
  "QueryDict_get (GET request) ''tag'' = Some X \<Longrightarrow> X \<noteq> [] \<Longrightarrow>
   \<exists>c. BlogIndexPage_serve self store request = Inr c
     \<and> set (object_list (paginator (listing c)))
         = {p \<in> set store. specific_class p = BlogPage \<and> live p
              \<and> startswith (path p) (path self) \<and> X \<in> set (tags p)}
     \<and> all_pages (paginator (listing c)) = object_list (paginator (listing c))
     \<and> set (page_object_list (listing c)) \<subseteq> set (object_list (paginator (listing c)))"
proof -
  assume t: "QueryDict_get (GET request) ''tag'' = Some X" and x: "X \<noteq> []"
  define xs where "xs = filter (\<lambda>b. X \<in> set (tags b)) (BlogIndexPage_blogs self store)"
  have ol: "object_list (new_Paginator xs 10) = xs"
    by (simp add: new_Paginator_def)
  have sub: "set (take 10 (drop n xs)) \<subseteq> set xs" for n
    by (meson set_take_subset set_drop_subset subset_trans)
  have st: "set xs = {p \<in> set store. specific_class p = BlogPage \<and> live p
              \<and> startswith (path p) (path self) \<and> X \<in> set (tags p)}"
    unfolding xs_def using set_blogs[of self store] by auto
  obtain k where s: "BlogIndexPage_serve self store request =
      Inr \<lparr>context_self = self, listing_key = ''blogs'',
           listing = \<lparr>page_object_list = take 10 (drop (10 * nat (k - 1)) xs), number = k,
                      paginator = new_Paginator xs 10\<rparr>\<rparr>"
    unfolding blog_serve_shape Let_def t xs_def using x by simp
  show ?thesis
    unfolding s using ol st sub all_pages_new[of xs] by simp
qed

text \<open>
  Claim C5. The \<open>blogs\<close> of a blog index are exactly the published blog entries below
  the index, ordered by post date with the latest first; when these entries have
  pairwise distinct dates, each entry is strictly later than every entry after it.
\<close>

theorem blogs_published_by_date:
  "set (BlogIndexPage_blogs self store)
     = {p \<in> set store. specific_class p = BlogPage \<and> live p \<and> startswith (path p) (path self)}
   \<and> sorted_wrt (\<lambda>a b. date a \<ge> date b) (BlogIndexPage_blogs self store)
   \<and> (distinct (map date (filter (\<lambda>p. specific_class p = BlogPage \<and> live p
                                \<and> startswith (path p) (path self)) store)) \<longrightarrow>
        sorted_wrt (\<lambda>a b. date a > date b) (BlogIndexPage_blogs self store))"
  using set_blogs[of self store] blogs_descending[of self store]
    strict_of_distinct[OF blogs_descending[of self store]] blogs_dates_distinct[of self store]
  by blast

text \<open>
  Claim C9. A request to the blog index whose \<open>tag\<close> parameter is the empty string
  gets the response of the request that differs from it only in having no \<open>tag\<close>
  parameter: no filter is applied.
\<close>

theorem empty_tag_no_filter:
  "QueryDict_get (GET r1) ''tag'' = Some [] \<Longrightarrow> QueryDict_get (GET r2) ''tag'' = None \<Longrightarrow>
   QueryDict_get (GET r1) ''page'' = QueryDict_get (GET r2) ''page'' \<Longrightarrow>
   BlogIndexPage_serve self store r1 = BlogIndexPage_serve self store r2"
  by (simp add: BlogIndexPage_serve_def)


text \<open>The theorem on the small site, for the tag \<open>wagtail\<close>.\<close>

theorem blog_tag_filter_witness:
  "QueryDict_get (GET request_tag_wagtail) ''tag'' = Some ''wagtail'' \<and> ''wagtail'' \<noteq> []
   \<and> (\<exists>c. BlogIndexPage_serve site_blog_index site_store request_tag_wagtail = Inr c
     \<and> set (object_list (paginator (listing c)))
         = {p \<in> set site_store. specific_class p = BlogPage \<and> live p
              \<and> startswith (path p) (path site_blog_index) \<and> ''wagtail'' \<in> set (tags p)}
     \<and> all_pages (paginator (listing c)) = object_list (paginator (listing c))
     \<and> set (page_object_list (listing c)) \<subseteq> set (object_list (paginator (listing c))))"
proof -
  have t: "QueryDict_get (GET request_tag_wagtail) ''tag'' = Some ''wagtail''"
    by (simp add: request_tag_wagtail_def QueryDict_get_def)
  have x: "''wagtail'' \<noteq> []" by simp
  show ?thesis
    using t x blog_tag_filter[OF t x, of site_blog_index site_store] by blast
qed

text \<open>
  The theorem on the small site: the eleven published entries have distinct dates and
  come out latest first; the unpublished twelfth is left out.
\<close>

theorem blogs_published_by_date_witness:
  "distinct (map date (filter (\<lambda>p. specific_class p = BlogPage \<and> live p
                                \<and> startswith (path p) (path site_blog_index)) site_store))
   \<and> sorted_wrt (\<lambda>a b. date a > date b) (BlogIndexPage_blogs site_blog_index site_store)
   \<and> map pk (BlogIndexPage_blogs site_blog_index site_store)
       = [21, 20, 19, 18, 17, 16, 15, 14, 13, 12, 11]"
proof -
  have d: "distinct (map date (filter (\<lambda>p. specific_class p = BlogPage \<and> live p
                                \<and> startswith (path p) (path site_blog_index)) site_store))"
    by code_simp
  have m: "map pk (BlogIndexPage_blogs site_blog_index site_store)
       = [21, 20, 19, 18, 17, 16, 15, 14, 13, 12, 11]"
    by code_simp
  show ?thesis
    using d m blogs_published_by_date[of site_blog_index site_store] by blast
qed

text \<open>The theorem on the small site, for page 2 with and without an empty tag.\<close>

theorem empty_tag_no_filter_witness:
  "QueryDict_get (GET request_tag_empty) ''tag'' = Some []
   \<and> QueryDict_get (GET request_no_tag) ''tag'' = None
   \<and> QueryDict_get (GET request_tag_empty) ''page'' = QueryDict_get (GET request_no_tag) ''page''
   \<and> BlogIndexPage_serve site_blog_index site_store request_tag_empty
       = BlogIndexPage_serve site_blog_index site_store request_no_tag"
proof -
  have a: "QueryDict_get (GET request_tag_empty) ''tag'' = Some []"
    by (simp add: request_tag_empty_def QueryDict_get_def)
  have b: "QueryDict_get (GET request_no_tag) ''tag'' = None"
    by (simp add: request_no_tag_def QueryDict_get_def)
  have c: "QueryDict_get (GET request_tag_empty) ''page'' = QueryDict_get (GET request_no_tag) ''page''"
    by (simp add: request_tag_empty_def request_no_tag_def QueryDict_get_def)
  show ?thesis
    using a b c empty_tag_no_filter[OF a b c, of site_blog_index site_store] by simp
qed

section \<open>Properties of the blog index lookup and of the top menu\<close>

lemma blog_index_loop_find:
  "blog_index_loop xs = find (\<lambda>a. specific_class a = BlogIndexPage) xs"
  by (induction xs) auto

lemma blog_index_loop_None:
  "(blog_index_loop xs = None) = (filter (\<lambda>a. specific_class a = BlogIndexPage) xs = [])"
  by (induction xs) auto

lemma blog_index_loop_Some:
  "blog_index_loop xs = Some a \<Longrightarrow> a \<in> set xs \<and> specific_class a = BlogIndexPage"
  by (induction xs) (auto split: if_splits)

lemma blog_index_loop_nearest:
  "sorted_wrt (\<lambda>a b. depth b \<le> depth a) xs \<Longrightarrow> blog_index_loop xs = Some a \<Longrightarrow>
   b \<in> set xs \<Longrightarrow> specific_class b = BlogIndexPage \<Longrightarrow> depth b \<le> depth a"
proof (induction xs)
  case Nil
  then show ?case by simp
next
  case (Cons x xs)
  show ?case
  proof (cases "specific_class x = BlogIndexPage")
    case True
    with Cons.prems(2) have "a = x" by simp
    with Cons.prems(1,3) show ?thesis by auto
  next
    case False
    with Cons.prems(2) have l: "blog_index_loop xs = Some a" by simp
    from False Cons.prems(3,4) have "b \<in> set xs" by auto
    with Cons.IH l Cons.prems(1,4) show ?thesis by simp
  qed
qed

lemma ancestors_nearest_first:
  "sorted_wrt (\<lambda>a b. depth b \<le> depth a) (rev (get_ancestors self store))"
proof -
  have "sorted (map depth (get_ancestors self store))"
    unfolding get_ancestors_def by (rule sorted_sort_key)
  then show ?thesis by (simp add: sorted_wrt_rev sorted_map)
qed

lemma set_ancestors_subset: "set (get_ancestors self store) \<subseteq> set store"
  by (auto simp: get_ancestors_def)

lemma startswith_append: "startswith s p = (\<exists>t. s = p @ t)"
  by (induction s p rule: startswith.induct) auto

lemma startswith_take: "startswith s (take n s)"
  unfolding startswith_append by (metis append_take_drop_id)

lemma ancestor_paths_proper:
  "a \<in> set (ancestor_paths s) \<Longrightarrow> startswith s a \<and> a \<noteq> [] \<and> length a < length s"
proof -
  assume "a \<in> set (ancestor_paths s)"
  then obtain k where k: "1 \<le> k" "k < (length s + 3) div 4" and a: "a = take (k * 4) s"
    by (auto simp: ancestor_paths_def steplen_def)
  from k have lt: "k * 4 < length s" by presburger
  then have "length a = k * 4" using a by simp
  with k lt a startswith_take show ?thesis by auto
qed

lemma ancestors_above:
  "a \<in> set (get_ancestors self store) \<Longrightarrow>
   a \<in> set store \<and> startswith (path self) (path a) \<and> length (path a) < length (path self)"
  by (auto simp: get_ancestors_def dest: ancestor_paths_proper)

lemma first_filter_find: "first (filter P xs) = find P xs"
  by (induction xs) (auto simp: first_def)

text \<open>
  Claim C2. \<open>blog_index\<close> walks the ancestors of the entry from the nearest to the
  furthest (no ancestor in the walk is deeper than one before it) and returns the first
  that is a \<open>BlogIndexPage\<close>. So when some ancestor is a \<open>BlogIndexPage\<close>, the result is
  such an ancestor and no ancestor that is a \<open>BlogIndexPage\<close> lies deeper; when none
  is, the result is the first \<open>BlogIndexPage\<close> row of the store.
\<close>

theorem blog_index_nearest:
  "((\<exists>a \<in> set (get_ancestors self store). specific_class a = BlogIndexPage) \<longrightarrow>
      (\<exists>a. blog_index self store = Some a \<and> a \<in> set (get_ancestors self store)
           \<and> specific_class a = BlogIndexPage
           \<and> (\<forall>b \<in> set (get_ancestors self store).
                 specific_class b = BlogIndexPage \<longrightarrow> depth b \<le> depth a)))
   \<and> ((\<forall>a \<in> set (get_ancestors self store). specific_class a \<noteq> BlogIndexPage) \<longrightarrow>
        blog_index self store = find (\<lambda>p. specific_class p = BlogIndexPage) store)
   \<and> blog_index self store =
       (case find (\<lambda>a. specific_class a = BlogIndexPage) (rev (get_ancestors self store)) of
          Some a \<Rightarrow> Some a
        | None \<Rightarrow> find (\<lambda>p. specific_class p = BlogIndexPage) store)
   \<and> sorted_wrt (\<lambda>a b. depth b \<le> depth a) (rev (get_ancestors self store))"
proof -
  let ?anc = "get_ancestors self store"
  have fb: "first (objects BlogIndexPage store) = find (\<lambda>p. specific_class p = BlogIndexPage) store"
    unfolding objects_def by (rule first_filter_find)
  have c3: "blog_index self store =
       (case find (\<lambda>a. specific_class a = BlogIndexPage) (rev ?anc) of
          Some a \<Rightarrow> Some a
        | None \<Rightarrow> find (\<lambda>p. specific_class p = BlogIndexPage) store)"
    by (simp add: blog_index_def blog_index_loop_find fb split: option.split)
  have c1: "\<exists>a. blog_index self store = Some a \<and> a \<in> set ?anc
           \<and> specific_class a = BlogIndexPage
           \<and> (\<forall>b \<in> set ?anc. specific_class b = BlogIndexPage \<longrightarrow> depth b \<le> depth a)"
    if "\<exists>a \<in> set ?anc. specific_class a = BlogIndexPage"
  proof -
    from that have "filter (\<lambda>a. specific_class a = BlogIndexPage) (rev ?anc) \<noteq> []"
      by (auto simp: filter_empty_conv)
    then have "blog_index_loop (rev ?anc) \<noteq> None" by (simp add: blog_index_loop_None)
    then obtain a where a: "blog_index_loop (rev ?anc) = Some a" by auto
    then have b: "blog_index self store = Some a" by (simp add: blog_index_def)
    from blog_index_loop_Some[OF a] have m: "a \<in> set ?anc" "specific_class a = BlogIndexPage"
      by auto
    have "\<forall>b \<in> set ?anc. specific_class b = BlogIndexPage \<longrightarrow> depth b \<le> depth a"
      using blog_index_loop_nearest[OF ancestors_nearest_first a] by auto
    with b m show ?thesis by blast
  qed
  have c2: "blog_index self store = find (\<lambda>p. specific_class p = BlogIndexPage) store"
    if "\<forall>a \<in> set ?anc. specific_class a \<noteq> BlogIndexPage"
  proof -
    from that have "filter (\<lambda>a. specific_class a = BlogIndexPage) (rev ?anc) = []"
      by (auto simp: filter_empty_conv)
    then have "blog_index_loop (rev ?anc) = None" by (simp add: blog_index_loop_None)
    then show ?thesis by (simp add: blog_index_def fb)
  qed
  from c1 c2 c3 ancestors_nearest_first[of self store] show ?thesis by blast
qed

text \<open>
  Claim C10. When the store holds no \<open>BlogIndexPage\<close> at all (so no ancestor is one
  either), \<open>blog_index\<close> returns \<open>None\<close>.
\<close>

theorem blog_index_none:
  "objects BlogIndexPage store = [] \<Longrightarrow> blog_index self store = None"
proof -
  assume e: "objects BlogIndexPage store = []"
  then have n: "\<forall>p \<in> set store. specific_class p \<noteq> BlogIndexPage"
    by (auto simp: objects_def filter_empty_conv)
  with set_ancestors_subset[of self store]
  have "filter (\<lambda>a. specific_class a = BlogIndexPage) (rev (get_ancestors self store)) = []"
    by (auto simp: filter_empty_conv)
  then have "blog_index_loop (rev (get_ancestors self store)) = None"
    by (simp add: blog_index_loop_None)
  with e show ?thesis by (simp add: blog_index_def first_def)
qed

text \<open>
  Claim C8. The items of the top menu are the published children of the root page that
  are shown in menus, in the order of the store, and the dropdown flag of an item is
  true exactly when the item's page has a published child that is shown in menus.
\<close>

theorem top_menu_dropdown:
  "map menu_page (menuitems (top_menu req parent calling store))
     = filter (\<lambda>c. live c \<and> show_in_menus c) (get_children parent store)
   \<and> (\<forall>m \<in> set (menuitems (top_menu req parent calling store)).
        show_dropdown m
          = (\<exists>g \<in> set (get_children (menu_page m) store). live g \<and> show_in_menus g))"
  by (auto simp: top_menu_def Let_def has_menu_children_def filter_empty_conv comp_def)

text \<open>
  The theorem on the small site: the third entry below the blog index finds that index
  among its ancestors; the entry filed below the job index has no such ancestor and gets
  the first blog index of the store.
\<close>

theorem blog_index_nearest_witness:
  "(\<exists>a \<in> set (get_ancestors (site_post 3) site_store). specific_class a = BlogIndexPage)
   \<and> (\<exists>a. blog_index (site_post 3) site_store = Some a
          \<and> a \<in> set (get_ancestors (site_post 3) site_store)
          \<and> specific_class a = BlogIndexPage)
   \<and> blog_index (site_post 3) site_store = Some site_blog_index
   \<and> list_all (\<lambda>a. specific_class a \<noteq> BlogIndexPage)
        (get_ancestors site_misfiled_post site_store)
   \<and> blog_index site_misfiled_post site_store
       = find (\<lambda>p. specific_class p = BlogIndexPage) site_store
   \<and> blog_index site_misfiled_post site_store = Some site_blog_index"
proof -
  have h1: "list_ex (\<lambda>a. specific_class a = BlogIndexPage)
              (get_ancestors (site_post 3) site_store)"
    by code_simp
  then have h1': "\<exists>a \<in> set (get_ancestors (site_post 3) site_store).
                    specific_class a = BlogIndexPage"
    by (simp add: list_ex_iff)
  have h2: "list_all (\<lambda>a. specific_class a \<noteq> BlogIndexPage)
              (get_ancestors site_misfiled_post site_store)"
    by code_simp
  then have h2': "\<forall>a \<in> set (get_ancestors site_misfiled_post site_store).
                    specific_class a \<noteq> BlogIndexPage"
    by (simp add: list_all_iff)
  have e1: "blog_index (site_post 3) site_store = Some site_blog_index" by code_simp
  have e2: "blog_index site_misfiled_post site_store = Some site_blog_index" by code_simp
  show ?thesis
    using h1' h2 h2' e1 e2 blog_index_nearest[of "site_post 3" site_store]
      blog_index_nearest[of site_misfiled_post site_store]
    by blast
qed

text \<open>The theorem on the tree without a blog index.\<close>

theorem blog_index_none_witness:
  "objects BlogIndexPage stray_store = [] \<and> blog_index stray_post stray_store = None"
proof -
  have e: "objects BlogIndexPage stray_store = []" by code_simp
  show ?thesis using e blog_index_none[OF e, of stray_post] by simp
qed

text \<open>
  The theorem on the small site: the menu of the home page holds the blog index and the
  job index, and an item with the dropdown flag has a child for the menu.
\<close>

theorem top_menu_dropdown_witness:
  "map menu_page (menuitems (top_menu request_no_tag site_home None site_store))
     = filter (\<lambda>c. live c \<and> show_in_menus c) (get_children site_home site_store)
   \<and> map pk (filter (\<lambda>c. live c \<and> show_in_menus c) (get_children site_home site_store)) = [2, 3]
   \<and> (\<exists>m \<in> set (menuitems (top_menu request_no_tag site_home None site_store)).
        show_dropdown m
        \<and> (\<exists>g \<in> set (get_children (menu_page m) site_store). live g \<and> show_in_menus g))"
proof -
  note th = top_menu_dropdown[of request_no_tag site_home None site_store]
  have "list_ex show_dropdown (menuitems (top_menu request_no_tag site_home None site_store))"
    by code_simp
  then obtain m where m: "m \<in> set (menuitems (top_menu request_no_tag site_home None site_store))"
    "show_dropdown m"
    by (auto simp: list_ex_iff)
  with th have g: "\<exists>g \<in> set (get_children (menu_page m) site_store). live g \<and> show_in_menus g"
    by blast
  have k: "map pk (filter (\<lambda>c. live c \<and> show_in_menus c) (get_children site_home site_store)) = [2, 3]"
    by code_simp
  from th m g k show ?thesis by blast
qed

end
